theory Spec2Isabelle
  imports Complex_Main
begin

section \<open>Common Python and numpy notions\<close>

text \<open>
  The notebooks compute with numpy \<open>float64\<close> arrays. The embedding reads every float
  as a real number: rounding, overflow of \<open>np.exp\<close> and NaN are outside the model.
  The theorems below are therefore about the structure of the computation: which
  entries are formed and compared, which indices and offsets are returned, which errors
  are raised. Nothing is stated that overflow or rounding would decide, such as the
  range of the returned score or how it moves with a logit.
  Exceptions are values: a function that may raise returns \<open>error + 'a\<close>.
\<close>

datatype error = ValueError | IndexError

text \<open>Python list indexing \<open>xs[i]\<close>: a negative index counts from the end.\<close>

definition list_get :: "'a list \<Rightarrow> int \<Rightarrow> error + 'a" where
  "list_get xs i =
     (if 0 \<le> i \<and> i < int (length xs) then Inr (xs ! nat i)
      else if i < 0 \<and> - int (length xs) \<le> i then Inr (xs ! nat (int (length xs) + i))
      else Inl IndexError)"

text \<open>Python \<open>int(x)\<close> on a float truncates towards zero.\<close>

definition py_int :: "real \<Rightarrow> int" where
  "py_int x = (if 0 \<le> x then \<lfloor>x\<rfloor> else \<lceil>x\<rceil>)"

section \<open>License plate recognition: \<open>result_to_string\<close>\<close>

text \<open>
  \<^verbatim>\<open>
  for idx in result.flatten():
      if idx != -1:
          str_list.append(match_dictionary[int(idx)])
      else:
          break
  ans = "".join(str_list)
  \<close>
  The dictionary (the lines of \<open>data/match_dictionary.txt\<close>) is a parameter; the
  result array is given flattened.
\<close>

fun result_to_string_loop :: "string list \<Rightarrow> real list \<Rightarrow> string list \<Rightarrow> error + string list" where
  "result_to_string_loop match_dictionary [] str_list = Inr str_list"
| "result_to_string_loop match_dictionary (idx # rest) str_list =
     (if idx \<noteq> - 1
      then (case list_get match_dictionary (py_int idx) of
              Inl e \<Rightarrow> Inl e
            | Inr s \<Rightarrow> result_to_string_loop match_dictionary rest (str_list @ [s]))
      else Inr str_list)"

definition result_to_string :: "string list \<Rightarrow> real list \<Rightarrow> error + string" where
  "result_to_string match_dictionary result =
     (case result_to_string_loop match_dictionary result [] of
        Inl e \<Rightarrow> Inl e
      | Inr str_list \<Rightarrow> Inr (concat str_list))"

section \<open>Entity extraction: span selection\<close>

text \<open>
  \<^verbatim>\<open>
  def get_score(logits):
      out = np.exp(logits)
      return out / out.sum(axis=-1)
  \<close>
\<close>

definition get_score :: "real list \<Rightarrow> real list" where
  "get_score logits = (let out = map exp logits in map (\<lambda>x. x / sum_list out) out)"

text \<open>
  A Python slice \<open>a[lo:hi]\<close> of a sequence of length \<open>n\<close>: a negative bound counts
  from the end, and both bounds are clipped to \<open>0..n\<close>.
\<close>

definition slice_index :: "nat \<Rightarrow> int \<Rightarrow> nat" where
  "slice_index n i = (if i < 0 then nat (int n + i) else min n (nat i))"

definition py_slice :: "'a list \<Rightarrow> int \<Rightarrow> int \<Rightarrow> 'a list" where
  "py_slice xs lo hi =
     (let a = slice_index (length xs) lo; b = slice_index (length xs) hi
      in take (b - a) (drop a xs))"

text \<open>
  \<open>v.reshape((d, 1))\<close> and \<open>v.reshape((1, d))\<close> of a one-dimensional array: numpy
  infers a negative dimension from the size, and otherwise raises \<open>ValueError\<close>
  unless the size is \<open>d\<close>.
\<close>

definition reshape_ok :: "real list \<Rightarrow> int \<Rightarrow> bool" where
  "reshape_ok v d = (d < 0 \<or> int (length v) = d)"

text \<open>\<open>np.matmul\<close> of a column \<open>(n, 1)\<close> and a row \<open>(1, m)\<close>, as a list of rows.\<close>

definition matmul_outer :: "real list \<Rightarrow> real list \<Rightarrow> real list list" where
  "matmul_outer col row = map (\<lambda>a. map (\<lambda>b. a * b) row) col"

text \<open>\<open>np.triu(m)\<close> zeroes the entries below the diagonal (\<open>j < i\<close>).\<close>

definition triu :: "real list list \<Rightarrow> real list list" where
  "triu m = map (\<lambda>i. map (\<lambda>j. if j < i then 0 else m ! i ! j) [0..<length (m ! i)])
              [0..<length m]"

text \<open>\<open>np.tril(m, k)\<close> zeroes the entries above the \<open>k\<close>-th diagonal (\<open>j > i + k\<close>).\<close>

definition tril :: "real list list \<Rightarrow> nat \<Rightarrow> real list list" where
  "tril m k = map (\<lambda>i. map (\<lambda>j. if j \<le> i + k then m ! i ! j else 0) [0..<length (m ! i)])
                [0..<length m]"

text \<open>
  \<open>a.argmax()\<close> of a one-dimensional array: the index of the first occurrence of the
  maximum; \<open>ValueError\<close> on an empty array.
\<close>

fun argmax_from :: "real list \<Rightarrow> nat \<Rightarrow> nat \<Rightarrow> real \<Rightarrow> nat" where
  "argmax_from [] i best_i best = best_i"
| "argmax_from (x # xs) i best_i best =
     (if best < x then argmax_from xs (Suc i) i x else argmax_from xs (Suc i) best_i best)"

definition argmax :: "real list \<Rightarrow> error + nat" where
  "argmax a = (case a of [] \<Rightarrow> Inl ValueError | x # xs \<Rightarrow> Inr (argmax_from xs 1 0 x))"

text \<open>
  \<^verbatim>\<open>
  score_mat = np.matmul(start_score[cs:ce].reshape((context_len, 1)),
                        end_score[cs:ce].reshape((1, context_len)))
  score_mat = np.triu(score_mat)
  score_mat = np.tril(score_mat, 16)
  max_s, max_e = divmod(score_mat.flatten().argmax(), score_mat.shape[1])
  max_score = score_mat[max_s, max_e]
  \<close>
\<close>

definition masked_scores :: "real list \<Rightarrow> real list \<Rightarrow> real list list" where
  "masked_scores col row = tril (triu (matmul_outer col row)) 16"

definition find_best_entity_window ::
  "real list \<Rightarrow> real list \<Rightarrow> int \<Rightarrow> int \<Rightarrow> error + (real \<times> nat \<times> nat)" where
  "find_best_entity_window start_score end_score context_start_idx context_end_idx =
     (let context_len = context_end_idx - context_start_idx;
          col = py_slice start_score context_start_idx context_end_idx;
          row = py_slice end_score context_start_idx context_end_idx
      in if \<not> reshape_ok col context_len \<or> \<not> reshape_ok row context_len then Inl ValueError
         else
           let score_mat = masked_scores col row
           in (case argmax (concat score_mat) of
                 Inl e \<Rightarrow> Inl e
               | Inr k \<Rightarrow>
                   let max_s = k div length row; max_e = k mod length row
                   in Inr (score_mat ! max_s ! max_e, max_s, max_e)))"

text \<open>
  \<open>postprocess\<close>: softmax of both logit vectors, the window search between
  \<open>len(entity_tokens) + 2\<close> and \<open>input_size - 1\<close>, then the character offsets
  \<open>context_tokens_start_end[max_start][0]\<close> and \<open>context_tokens_start_end[max_end][1]\<close>.
\<close>

definition postprocess ::
  "real list \<Rightarrow> real list \<Rightarrow> int list \<Rightarrow> (int \<times> int) list \<Rightarrow> int \<Rightarrow> error + (real \<times> int \<times> int)" where
  "postprocess output_start output_end entity_tokens context_tokens_start_end input_size =
     (let score_start = get_score output_start;
          score_end = get_score output_end;
          context_start_idx = int (length entity_tokens) + 2;
          context_end_idx = input_size - 1
      in case find_best_entity_window score_start score_end context_start_idx context_end_idx of
           Inl e \<Rightarrow> Inl e
         | Inr (max_score, max_start, max_end) \<Rightarrow>
             (case list_get context_tokens_start_end (int max_start) of
                Inl e \<Rightarrow> Inl e
              | Inr span_start \<Rightarrow>
                  (case list_get context_tokens_start_end (int max_end) of
                     Inl e \<Rightarrow> Inl e
                   | Inr span_end \<Rightarrow> Inr (max_score, fst span_start, snd span_end))))"

text \<open>
  The inputs the specification calls valid: logit vectors of equal length and a
  non-empty context window inside them. For \<open>postprocess\<close> the window is
  \<open>[len(entity_tokens) + 2, input_size - 1)\<close> and the token-span table of the context
  has an entry for every context token.
\<close>

definition valid_window :: "real list \<Rightarrow> real list \<Rightarrow> int \<Rightarrow> int \<Rightarrow> bool" where
  "valid_window start_logits end_logits context_start_idx context_end_idx =
     (length start_logits = length end_logits \<and> 0 \<le> context_start_idx
      \<and> context_start_idx < context_end_idx \<and> context_end_idx \<le> int (length start_logits))"

definition valid_postprocess ::
  "real list \<Rightarrow> real list \<Rightarrow> int list \<Rightarrow> (int \<times> int) list \<Rightarrow> int \<Rightarrow> bool" where
  "valid_postprocess output_start output_end entity_tokens context_tokens_start_end input_size =
     (valid_window output_start output_end (int (length entity_tokens) + 2) (input_size - 1)
      \<and> input_size - 3 - int (length entity_tokens) \<le> int (length context_tokens_start_end))"

section \<open>Entity extraction: the notebook's driver\<close>

text \<open>
  The tokenizer (\<open>tokens_bert.text_to_tokens\<close> with the loaded vocabulary), the compiled
  model, the special tokens, Python's \<open>str.lower\<close> and the \<open>:.2f\<close> formatting are
  collaborators outside the notebook; they are parameters, taken to return (what they
  raise is not modelled). The model returns the two logit rows \<open>output_s[0]\<close> and
  \<open>output_e[0]\<close>.
\<close>

record network_input =
  input_ids :: "int list"
  attention_mask :: "int list"
  token_type_ids :: "int list"
  position_ids :: "int list option"

record collaborators =
  text_to_tokens :: "string \<Rightarrow> int list \<times> (int \<times> int) list"
  compiled_model :: "network_input \<Rightarrow> real list \<times> real list"
  cls_token :: int
  sep_token :: int
  has_position_ids :: bool
  str_lower :: "string \<Rightarrow> string"
  format_2f :: "real \<Rightarrow> string"

definition prepare_input :: "collaborators \<Rightarrow> int list \<Rightarrow> int list \<Rightarrow> network_input" where
  "prepare_input env entity_tokens context_tokens =
     (let ids = [cls_token env] @ entity_tokens @ [sep_token env] @ context_tokens @ [sep_token env]
      in \<lparr>input_ids = ids,
          attention_mask = replicate (length ids) 1,
          token_type_ids = replicate (length entity_tokens + 2) 0
                           @ replicate (length context_tokens + 1) 1,
          position_ids = (if has_position_ids env then Some (map int [0..<length ids]) else None)\<rparr>)"

text \<open>
  \<open>get_best_entity\<close> calls the model once; the list of inputs the model has been called
  with is threaded through as state, so that a claim can speak about the calls made.
\<close>

definition get_best_entity ::
  "collaborators \<Rightarrow> string \<Rightarrow> string \<Rightarrow> network_input list
     \<Rightarrow> network_input list \<times> (error + string \<times> real)" where
  "get_best_entity env entity context calls =
     (let (context_tokens, context_tokens_end) = text_to_tokens env (str_lower env context);
          (entity_tokens, unused) = text_to_tokens env (str_lower env entity);
          net_input = prepare_input env entity_tokens context_tokens;
          input_size = int (length context_tokens) + int (length entity_tokens) + 3;
          (output_s, output_e) = compiled_model env net_input;
          calls' = calls @ [net_input]
      in case postprocess output_s output_e entity_tokens context_tokens_end input_size of
           Inl e \<Rightarrow> (calls', Inl e)
         | Inr (score, char_start, char_end) \<Rightarrow>
             (calls', Inr (py_slice context char_start char_end, score)))"

definition template :: "string list" where
  "template = [''building'', ''company'', ''persons'', ''city'',
               ''state'', ''height'', ''floor'', ''address'']"

definition confidence_threshold :: real where
  "confidence_threshold = 0.4"

record extraction =
  Entity :: string
  Type :: string
  Score :: string

text \<open>What \<open>run_analyze_entities\<close> prints (the elapsed time is left out).\<close>

datatype printed =
    Context_line string
  | Error_empty_context
  | Error_context_too_long
  | Json_output "extraction list"

text \<open>
  \<^verbatim>\<open>
  for field in template:
      entity_to_find = field + "?"
      entity, score = get_best_entity(entity=entity_to_find, context=context, vocab=vocab)
      if score >= confidence_threshold:
          extract.append({"Entity": entity, "Type": field, "Score": f"{score:.2f}"})
  \<close>
\<close>

fun analyze_fields ::
  "collaborators \<Rightarrow> string \<Rightarrow> string list \<Rightarrow> extraction list \<Rightarrow> network_input list
     \<Rightarrow> network_input list \<times> (error + extraction list)" where
  "analyze_fields env context [] extract calls = (calls, Inr extract)"
| "analyze_fields env context (field # others) extract calls =
     (case get_best_entity env (field @ ''?'') context calls of
        (calls', Inl e) \<Rightarrow> (calls', Inl e)
      | (calls', Inr (entity, score)) \<Rightarrow>
          analyze_fields env context others
            (if score \<ge> confidence_threshold
             then extract @ [\<lparr>Entity = entity, Type = field, Score = format_2f env score\<rparr>]
             else extract)
            calls')"

text \<open>
  The result is the model calls made, the lines printed, and the exception that ended
  the run, if any.
\<close>

definition run_analyze_entities ::
  "collaborators \<Rightarrow> string \<Rightarrow> network_input list \<times> printed list \<times> error option" where
  "run_analyze_entities env context =
     (if length context = 0 then ([], [Context_line context, Error_empty_context], None)
      else if length context > 380 then ([], [Context_line context, Error_context_too_long], None)
      else (case analyze_fields env context template [] [] of
              (calls, Inl e) \<Rightarrow> (calls, [Context_line context], Some e)
            | (calls, Inr extract) \<Rightarrow> (calls, [Context_line context, Json_output extract], None)))"

text \<open>The model input that \<open>get_best_entity\<close> builds for an entity query and a context.\<close>

definition query_input :: "collaborators \<Rightarrow> string \<Rightarrow> string \<Rightarrow> network_input" where
  "query_input env entity context =
     prepare_input env (fst (text_to_tokens env (str_lower env entity)))
       (fst (text_to_tokens env (str_lower env context)))"

text \<open>
  A small instance of the collaborators, for evaluating the driver: the tokenizer gives
  every text one token (token 1 for the query \<open>company?\<close>), and the model answers
  with logits peaked at the context token for that query and flat logits otherwise.
\<close>

definition sample_env :: collaborators where
  "sample_env =
     \<lparr>text_to_tokens = (\<lambda>s. ([if s = ''company?'' then 1 else 0], [(0, int (length s))])),
      compiled_model = (\<lambda>n. if input_ids n = [101, 1, 102, 0, 102]
                             then ([0, 0, 0, ln 16, 0], [0, 0, 0, ln 16, 0])
                             else ([0, 0, 0, 0, 0], [0, 0, 0, 0, 0])),
      cls_token = 101, sep_token = 102, has_position_ids = False,
      str_lower = (\<lambda>s. s),
      format_2f = (\<lambda>r. if r = 16 / 25 then ''0.64'' else ''0.04'')\<rparr>"

section \<open>Properties of \<open>result_to_string\<close>\<close>

lemma result_to_string_loop_takeWhile:
  "result_to_string_loop d v acc = result_to_string_loop d (takeWhile (\<lambda>x. x \<noteq> - 1) v) acc"
  by (induction v arbitrary: acc) (auto split: sum.splits)

lemma result_to_string_loop_ok:
  "\<forall>x \<in> set v. x \<noteq> - 1 \<and> list_get d (py_int x) = Inr (g x) \<Longrightarrow>
   result_to_string_loop d v acc = Inr (acc @ map g v)"
  by (induction v arbitrary: acc) auto

text \<open>
  Claim C10. \<open>result_to_string\<close> only reads the entries before the first \<open>-1\<close>: it
  returns the concatenation of \<open>match_dictionary[int(idx)]\<close> over these entries, in
  order (whenever each of these lookups is in range, with \<open>g idx\<close> the string looked
  up), the entries from the first \<open>-1\<close> on never affect the result, and a vector that
  starts with \<open>-1\<close> gives the empty string.
\<close>

theorem result_to_string_prefix:
  "((\<forall>idx \<in> set (takeWhile (\<lambda>x. x \<noteq> - 1) v). list_get d (py_int idx) = Inr (g idx)) \<longrightarrow>
      result_to_string d v = Inr (concat (map g (takeWhile (\<lambda>x. x \<noteq> - 1) v))))
   \<and> result_to_string d (pre @ (- 1) # rest) = result_to_string d (takeWhile (\<lambda>x. x \<noteq> - 1) pre)
   \<and> result_to_string d ((- 1) # rest) = Inr []"
proof (intro conjI impI)
  assume h: "\<forall>idx \<in> set (takeWhile (\<lambda>x. x \<noteq> - 1) v). list_get d (py_int idx) = Inr (g idx)"
  have "\<forall>x \<in> set (takeWhile (\<lambda>x. x \<noteq> - 1) v). x \<noteq> - 1 \<and> list_get d (py_int x) = Inr (g x)"
    using h by (auto dest: set_takeWhileD)
  then have "result_to_string_loop d (takeWhile (\<lambda>x. x \<noteq> - 1) v) [] =
      Inr ([] @ map g (takeWhile (\<lambda>x. x \<noteq> - 1) v))"
    by (rule result_to_string_loop_ok)
  then show "result_to_string d v = Inr (concat (map g (takeWhile (\<lambda>x. x \<noteq> - 1) v)))"
    unfolding result_to_string_def
    by (simp add: result_to_string_loop_takeWhile [of d v])
next
  have "takeWhile (\<lambda>x. x \<noteq> - 1) (pre @ (- 1) # rest) = takeWhile (\<lambda>x::real. x \<noteq> - 1) pre"
    by (induction pre) auto
  then show "result_to_string d (pre @ (- 1) # rest) =
      result_to_string d (takeWhile (\<lambda>x. x \<noteq> - 1) pre)"
    unfolding result_to_string_def
    by (metis result_to_string_loop_takeWhile)
next
  show "result_to_string d ((- 1) # rest) = Inr []"
    by (simp add: result_to_string_def)
qed

theorem result_to_string_prefix_witness:
  "result_to_string [''A'', ''B'', ''<Anhui>''] [2, 0, 1, - 1, 7, 0] = Inr ''<Anhui>AB''
   \<and> result_to_string [''A'', ''B'', ''<Anhui>''] ([2, 0] @ (- 1) # [7, 0]) = Inr ''<Anhui>A''"
proof -
  let ?d = "[''A'', ''B'', ''<Anhui>'']"
  let ?g = "\<lambda>x::real. ?d ! nat (py_int x)"
  have h: "\<forall>idx \<in> set (takeWhile (\<lambda>x. x \<noteq> - 1) [2, 0, 1, - 1, 7, 0::real]).
      list_get ?d (py_int idx) = Inr (?g idx)"
    by (simp add: list_get_def py_int_def)
  show ?thesis
    using h result_to_string_prefix [of "[2, 0, 1, - 1, 7, 0]" ?d ?g "[2, 0]" "[7, 0]"]
    by (simp add: py_int_def list_get_def result_to_string_def)
qed

section \<open>Properties of the span selection\<close>

subsection \<open>The first maximum of an array\<close>

lemma argmax_from_inv:
  "i = length ys \<Longrightarrow> bi < i \<Longrightarrow> ys ! bi = bv \<Longrightarrow> \<forall>k<i. ys ! k \<le> bv \<Longrightarrow> \<forall>k<bi. ys ! k < bv \<Longrightarrow>
   argmax_from xs i bi bv < length (ys @ xs)
   \<and> (\<forall>k < length (ys @ xs). (ys @ xs) ! k \<le> (ys @ xs) ! argmax_from xs i bi bv)
   \<and> (\<forall>k < argmax_from xs i bi bv. (ys @ xs) ! k < (ys @ xs) ! argmax_from xs i bi bv)"
proof (induction xs arbitrary: ys i bi bv)
  case Nil
  then show ?case by simp
next
  case (Cons x xs)
  show ?case
  proof (cases "bv < x")
    case True
    have a: "Suc i = length (ys @ [x])" using Cons.prems by simp
    have b: "i < Suc i" by simp
    have c: "(ys @ [x]) ! i = x" using Cons.prems by simp
    have d: "\<forall>k<Suc i. (ys @ [x]) ! k \<le> x"
      using Cons.prems True by (auto simp: nth_append less_Suc_eq intro: less_imp_le order_trans)
    have e: "\<forall>k<i. (ys @ [x]) ! k < x"
      using Cons.prems True by (auto simp: nth_append intro: le_less_trans)
    from Cons.IH [OF a b c d e] True show ?thesis by simp
  next
    case False
    have a: "Suc i = length (ys @ [x])" using Cons.prems by simp
    have b: "bi < Suc i" using Cons.prems by simp
    have c: "(ys @ [x]) ! bi = bv" using Cons.prems by (simp add: nth_append)
    have d: "\<forall>k<Suc i. (ys @ [x]) ! k \<le> bv"
      using Cons.prems False by (auto simp: nth_append less_Suc_eq)
    have e: "\<forall>k<bi. (ys @ [x]) ! k < bv"
      using Cons.prems by (auto simp: nth_append)
    from Cons.IH [OF a b c d e] False show ?thesis by simp
  qed
qed

lemma argmax_first_max:
  assumes "a \<noteq> []"
  shows "\<exists>k. argmax a = Inr k \<and> k < length a \<and> (\<forall>i < length a. a ! i \<le> a ! k)
     \<and> (\<forall>i < k. a ! i < a ! k)"
proof -
  obtain x xs where a: "a = x # xs" using assms by (cases a) auto
  have "argmax_from xs 1 0 x < length ([x] @ xs)
   \<and> (\<forall>k < length ([x] @ xs). ([x] @ xs) ! k \<le> ([x] @ xs) ! argmax_from xs 1 0 x)
   \<and> (\<forall>k < argmax_from xs 1 0 x. ([x] @ xs) ! k < ([x] @ xs) ! argmax_from xs 1 0 x)"
    by (rule argmax_from_inv) auto
  then show ?thesis by (simp add: a argmax_def)
qed

lemma concat_rect_length:
  "\<forall>r \<in> set m. length r = c \<Longrightarrow> length (concat m) = length m * c"
  by (induction m) auto

lemma concat_rect_nth:
  "\<forall>r \<in> set m. length r = c \<Longrightarrow> i < length m \<Longrightarrow> j < c \<Longrightarrow> concat m ! (i * c + j) = m ! i ! j"
proof (induction m arbitrary: i)
  case Nil
  then show ?case by simp
next
  case (Cons r m)
  show ?case
  proof (cases i)
    case 0
    then show ?thesis using Cons.prems by (simp add: nth_append)
  next
    case (Suc i')
    have "concat m ! (i' * c + j) = m ! i' ! j"
      using Cons.prems Suc by (intro Cons.IH) auto
    moreover have "length r = c" using Cons.prems by simp
    ultimately show ?thesis using Suc by (simp add: nth_append)
  qed
qed

lemma concat_rect_divmod:
  assumes "\<forall>r \<in> set m. length r = c" and "k < length m * c"
  shows "concat m ! k = m ! (k div c) ! (k mod c)" and "k div c < length m" and "k mod c < c"
proof -
  have c: "0 < c" using assms(2) by (cases c) auto
  show d: "k div c < length m" using assms(2) c by (simp add: less_mult_imp_div_less)
  show m: "k mod c < c" using c by simp
  have "concat m ! ((k div c) * c + k mod c) = m ! (k div c) ! (k mod c)"
    using assms(1) d m by (rule concat_rect_nth)
  then show "concat m ! k = m ! (k div c) ! (k mod c)" by simp
qed

lemma length_masked_scores: "length (masked_scores col row) = length col"
  by (simp add: masked_scores_def tril_def triu_def matmul_outer_def)

lemma masked_scores_row:
  "i < length col \<Longrightarrow> length (masked_scores col row ! i) = length row"
  by (simp add: masked_scores_def tril_def triu_def matmul_outer_def)

lemma masked_scores_nth:
  "i < length col \<Longrightarrow> j < length row \<Longrightarrow>
   masked_scores col row ! i ! j = (if i \<le> j \<and> j \<le> i + 16 then col ! i * row ! j else 0)"
  by (simp add: masked_scores_def tril_def triu_def matmul_outer_def)

lemma masked_scores_rect: "\<forall>r \<in> set (masked_scores col row). length r = length row"
  by (auto simp: in_set_conv_nth length_masked_scores masked_scores_row)


lemma py_slice_inside:
  assumes "0 \<le> lo" and "lo \<le> hi" and "hi \<le> int (length xs)"
  shows "py_slice xs lo hi = take (nat (hi - lo)) (drop (nat lo) xs)"
    and "length (py_slice xs lo hi) = nat (hi - lo)"
    and "i < nat (hi - lo) \<Longrightarrow> py_slice xs lo hi ! i = xs ! (nat lo + i)"
proof -
  have a: "slice_index (length xs) lo = nat lo" using assms by (simp add: slice_index_def)
  have b: "slice_index (length xs) hi = nat hi" using assms by (simp add: slice_index_def)
  have c: "nat hi - nat lo = nat (hi - lo)" using assms by simp
  show d: "py_slice xs lo hi = take (nat (hi - lo)) (drop (nat lo) xs)"
    by (simp add: py_slice_def a b c)
  show "length (py_slice xs lo hi) = nat (hi - lo)" using assms by (simp add: d)
  show "i < nat (hi - lo) \<Longrightarrow> py_slice xs lo hi ! i = xs ! (nat lo + i)"
    using assms by (simp add: d)
qed

lemma py_slice_length_nonneg:
  assumes "0 \<le> lo" and "0 \<le> hi"
  shows "length (py_slice xs lo hi) = min (length xs) (nat hi) - min (length xs) (nat lo)"
  using assms by (auto simp: py_slice_def slice_index_def Let_def)

lemma find_best_entity_window_square:
  assumes col: "length col = n" and row: "length row = n" and n: "0 < n"
  shows "\<exists>k. argmax (concat (masked_scores col row)) = Inr k \<and> k < n * n
     \<and> k div n < n \<and> k mod n < n
     \<and> concat (masked_scores col row) ! k = masked_scores col row ! (k div n) ! (k mod n)
     \<and> (\<forall>i < n. \<forall>j < n. masked_scores col row ! i ! j \<le> masked_scores col row ! (k div n) ! (k mod n))
     \<and> (\<forall>k' < k. concat (masked_scores col row) ! k' < concat (masked_scores col row) ! k)
     \<and> (\<forall>k' < n * n. concat (masked_scores col row) ! k' \<le> concat (masked_scores col row) ! k)"
proof -
  let ?M = "masked_scores col row"
  have rect: "\<forall>r \<in> set ?M. length r = n" using masked_scores_rect [of col row] row by simp
  have len: "length (concat ?M) = n * n"
    using concat_rect_length [OF rect] col by (simp add: length_masked_scores)
  have ne: "concat ?M \<noteq> []"
  proof
    assume "concat ?M = []"
    then have "length (concat ?M) = 0" by simp
    then show False using len n by simp
  qed
  from argmax_first_max [OF ne] obtain k where k: "argmax (concat ?M) = Inr k"
    "k < length (concat ?M)" "\<forall>i < length (concat ?M). concat ?M ! i \<le> concat ?M ! k"
    "\<forall>i < k. concat ?M ! i < concat ?M ! k" by blast
  have kn: "k < length ?M * n" using k(2) len col by (simp add: length_masked_scores)
  note dm = concat_rect_divmod [OF rect kn]
  have mx: "\<forall>i < n. \<forall>j < n. ?M ! i ! j \<le> ?M ! (k div n) ! (k mod n)"
  proof (intro allI impI)
    fix i j assume i: "i < n" and j: "j < n"
    have iM: "i < length ?M" using i col by (simp add: length_masked_scores)
    have "i * n + j < n * n"
    proof -
      have "i * n + j < i * n + n" using j by simp
      also have "\<dots> = Suc i * n" by simp
      also have "\<dots> \<le> n * n" using i by (metis Suc_leI mult.commute mult_le_mono2)
      finally show ?thesis .
    qed
    then have "concat ?M ! (i * n + j) \<le> concat ?M ! k" using k(3) len by simp
    then show "?M ! i ! j \<le> ?M ! (k div n) ! (k mod n)"
      using concat_rect_nth [OF rect iM j] dm(1) by simp
  qed
  have all: "\<forall>k' < n * n. concat ?M ! k' \<le> concat ?M ! k" using k(3) len by simp
  show ?thesis
    using k(1) k(2) k(4) len dm mx col all by (auto simp: length_masked_scores)
qed


lemma find_best_entity_window_fits:
  assumes "0 \<le> cs" and "cs < ce" and "ce \<le> int (length s)" and "ce \<le> int (length e)"
  defines "n \<equiv> nat (ce - cs)"
  defines "M \<equiv> masked_scores (py_slice s cs ce) (py_slice e cs ce)"
  shows "\<exists>k. argmax (concat M) = Inr k \<and> k < n * n \<and> k div n < n \<and> k mod n < n
     \<and> find_best_entity_window s e cs ce = Inr (M ! (k div n) ! (k mod n), k div n, k mod n)
     \<and> concat M ! k = M ! (k div n) ! (k mod n)
     \<and> (\<forall>i < n. \<forall>j < n. M ! i ! j \<le> M ! (k div n) ! (k mod n))
     \<and> (\<forall>k' < k. concat M ! k' < concat M ! k)
     \<and> (\<forall>k' < n * n. concat M ! k' \<le> concat M ! k)
     \<and> length (concat M) = n * n"
proof -
  have le: "cs \<le> ce" using assms(2) by simp
  have col: "length (py_slice s cs ce) = n"
    unfolding n_def using assms(1) le assms(3) by (rule py_slice_inside(2))
  have row: "length (py_slice e cs ce) = n"
    unfolding n_def using assms(1) le assms(4) by (rule py_slice_inside(2))
  have n: "0 < n" using assms(2) by (simp add: n_def)
  have ok: "reshape_ok (py_slice s cs ce) (ce - cs)" "reshape_ok (py_slice e cs ce) (ce - cs)"
    using col row assms(2) by (simp_all add: reshape_ok_def n_def)
  from find_best_entity_window_square [OF col row n] obtain k where
    k: "argmax (concat M) = Inr k" "k < n * n" "k div n < n" "k mod n < n"
      "concat M ! k = M ! (k div n) ! (k mod n)"
      "\<forall>i < n. \<forall>j < n. M ! i ! j \<le> M ! (k div n) ! (k mod n)"
      "\<forall>k' < k. concat M ! k' < concat M ! k"
      "\<forall>k' < n * n. concat M ! k' \<le> concat M ! k"
    unfolding M_def by blast
  have len: "length (concat M) = n * n"
    unfolding M_def
    using concat_rect_length [OF masked_scores_rect, of "py_slice s cs ce" "py_slice e cs ce"]
      col row by (simp add: length_masked_scores)
  have "find_best_entity_window s e cs ce = Inr (M ! (k div n) ! (k mod n), k div n, k mod n)"
    using ok k(1) row by (simp add: find_best_entity_window_def Let_def M_def)
  then show ?thesis using k len by blast
qed

lemma py_slice_short:
  assumes "0 \<le> lo" and "lo < hi" and "\<not> hi \<le> int (length xs)"
  shows "int (length (py_slice xs lo hi)) \<noteq> hi - lo"
proof -
  have h: "min (length xs) (nat hi) = length xs" using assms by simp
  have "length (py_slice xs lo hi) = length xs - min (length xs) (nat lo)"
    using py_slice_length_nonneg [of lo hi xs] assms h by simp
  then show ?thesis using assms by (cases "nat lo \<le> length xs") (simp_all add: min_def)
qed

lemma find_best_entity_window_raises:
  assumes "0 \<le> cs" and "0 \<le> ce"
  shows "find_best_entity_window s e cs ce = Inl ValueError
     \<longleftrightarrow> \<not> (cs < ce \<and> ce \<le> int (length s) \<and> ce \<le> int (length e))"
proof (cases "cs < ce \<and> ce \<le> int (length s) \<and> ce \<le> int (length e)")
  case True
  then show ?thesis
    using find_best_entity_window_fits [of cs ce s e] assms by auto
next
  case False
  have ls: "length (py_slice s cs ce) = min (length s) (nat ce) - min (length s) (nat cs)"
    using assms by (rule py_slice_length_nonneg)
  have le: "length (py_slice e cs ce) = min (length e) (nat ce) - min (length e) (nat cs)"
    using assms by (rule py_slice_length_nonneg)
  show ?thesis
  proof (cases "cs < ce")
    case True
    then have "\<not> ce \<le> int (length s) \<or> \<not> ce \<le> int (length e)" using False by simp
    then have "\<not> reshape_ok (py_slice s cs ce) (ce - cs) \<or> \<not> reshape_ok (py_slice e cs ce) (ce - cs)"
      using True assms py_slice_short [of cs ce s] py_slice_short [of cs ce e]
      by (auto simp: reshape_ok_def)
    then show ?thesis using False by (auto simp: find_best_entity_window_def Let_def)
  next
    case nlt: False
    then have "min (length s) (nat ce) \<le> min (length s) (nat cs)" using assms by simp
    then have "py_slice s cs ce = []" using ls by simp
    then have c: "concat (masked_scores (py_slice s cs ce) (py_slice e cs ce)) = []"
      by (simp add: masked_scores_def tril_def triu_def matmul_outer_def)
    show ?thesis using False
      by (simp add: find_best_entity_window_def Let_def argmax_def c)
  qed
qed

lemma length_get_score: "length (get_score l) = length l"
  by (simp add: get_score_def Let_def)

lemma get_score_nth:
  "k < length l \<Longrightarrow> get_score l ! k = exp (l ! k) / sum_list (map exp l)"
  by (simp add: get_score_def Let_def)

lemma sum_exp_ge:
  fixes l :: "real list"
  assumes "k < length l"
  shows "exp (l ! k) \<le> sum_list (map exp l)"
proof -
  have "l ! k \<in> set l" using assms by simp
  then have "exp (l ! k) \<in> set (map exp l)" by simp
  moreover have "\<And>x. x \<in> set (map exp l) \<Longrightarrow> (0::real) \<le> x" by auto
  ultimately show ?thesis by (rule member_le_sum_list)
qed

lemma sum_exp_pos: "k < length (l :: real list) \<Longrightarrow> 0 < sum_list (map exp l)"
  using sum_exp_ge [of k l] exp_gt_zero [of "l ! k"] by linarith

lemma get_score_pos: "k < length l \<Longrightarrow> 0 < get_score l ! k"
  using sum_exp_pos [of k l] by (simp add: get_score_nth)

subsection \<open>The selected span on valid inputs\<close>

lemma window_softmax:
  assumes v: "valid_window a b cs ce"
  defines "n \<equiv> nat (ce - cs)"
  defines "ps \<equiv> get_score a" and "pe \<equiv> get_score b"
  shows "\<exists>sc i j. find_best_entity_window ps pe cs ce = Inr (sc, i, j)
     \<and> i < n \<and> j < n \<and> i \<le> j \<and> j \<le> i + 16
     \<and> sc = ps ! (nat cs + i) * pe ! (nat cs + j) \<and> 0 < sc
     \<and> (\<forall>i' < n. \<forall>j' < n. i' \<le> j' \<and> j' \<le> i' + 16 \<longrightarrow>
            ps ! (nat cs + i') * pe ! (nat cs + j') \<le> sc)"
proof -
  let ?col = "py_slice ps cs ce" and ?row = "py_slice pe cs ce"
  let ?M = "masked_scores ?col ?row"
  have c0: "0 \<le> cs" and c1: "cs < ce" and c2: "ce \<le> int (length ps)" and c3: "ce \<le> int (length pe)"
    using v by (simp_all add: valid_window_def ps_def pe_def length_get_score)
  have le: "cs \<le> ce" using c1 by simp
  have lcol: "length ?col = n" unfolding n_def using c0 le c2 by (rule py_slice_inside(2))
  have lrow: "length ?row = n" unfolding n_def using c0 le c3 by (rule py_slice_inside(2))
  have col: "\<And>i. i < n \<Longrightarrow> ?col ! i = ps ! (nat cs + i)"
    unfolding n_def using c0 le c2 by (rule py_slice_inside(3))
  have row: "\<And>i. i < n \<Longrightarrow> ?row ! i = pe ! (nat cs + i)"
    unfolding n_def using c0 le c3 by (rule py_slice_inside(3))
  have inside: "\<And>i. i < n \<Longrightarrow> nat cs + i < length a \<and> nat cs + i < length b"
    using v by (auto simp: valid_window_def n_def)
  have pos: "\<And>i j. i < n \<Longrightarrow> j < n \<Longrightarrow> 0 < ps ! (nat cs + i) * pe ! (nat cs + j)"
    using inside by (simp add: ps_def pe_def get_score_pos)
  have entry: "\<And>i j. i < n \<Longrightarrow> j < n \<Longrightarrow>
      ?M ! i ! j = (if i \<le> j \<and> j \<le> i + 16 then ps ! (nat cs + i) * pe ! (nat cs + j) else 0)"
    using masked_scores_nth [of _ ?col _ ?row] lcol lrow col row by simp
  from find_best_entity_window_fits [OF c0 c1 c2 c3] obtain k where
    k: "k div n < n" "k mod n < n"
      "find_best_entity_window ps pe cs ce = Inr (?M ! (k div n) ! (k mod n), k div n, k mod n)"
      "\<forall>i < n. \<forall>j < n. ?M ! i ! j \<le> ?M ! (k div n) ! (k mod n)"
    unfolding n_def by blast
  let ?i = "k div n" and ?j = "k mod n"
  have n0: "0 < n" using c1 by (simp add: n_def)
  have "?M ! 0 ! 0 \<le> ?M ! ?i ! ?j" using k(4) n0 by blast
  moreover have "0 < ?M ! 0 ! 0" using entry [OF n0 n0] pos [OF n0 n0] by simp
  ultimately have mpos: "0 < ?M ! ?i ! ?j" by linarith
  have band: "?i \<le> ?j \<and> ?j \<le> ?i + 16"
    using mpos entry [OF k(1) k(2)] by (auto split: if_splits)
  have val: "?M ! ?i ! ?j = ps ! (nat cs + ?i) * pe ! (nat cs + ?j)"
    using band entry [OF k(1) k(2)] by simp
  have mx: "\<forall>i' < n. \<forall>j' < n. i' \<le> j' \<and> j' \<le> i' + 16 \<longrightarrow>
            ps ! (nat cs + i') * pe ! (nat cs + j') \<le> ?M ! ?i ! ?j"
  proof (intro allI impI)
    fix i' j' assume i': "i' < n" and j': "j' < n" and b: "i' \<le> j' \<and> j' \<le> i' + 16"
    have "?M ! i' ! j' \<le> ?M ! ?i ! ?j" using k(4) i' j' by blast
    then show "ps ! (nat cs + i') * pe ! (nat cs + j') \<le> ?M ! ?i ! ?j"
      using entry [OF i' j'] b by simp
  qed
  show ?thesis
    using k(1) k(2) k(3) band val mpos mx by (intro exI [of _ "?M ! ?i ! ?j"] exI [of _ ?i] exI [of _ ?j]) simp
qed


lemma get_score_zeros8:
  "get_score [0, 0, 0, 0, 0, 0, 0, 0] = [1 / 8, 1 / 8, 1 / 8, 1 / 8, 1 / 8, 1 / 8, 1 / 8, 1 / 8]"
  by (simp add: get_score_def)

lemma window_zeros8:
  "find_best_entity_window [1 / 8, 1 / 8, 1 / 8, 1 / 8, 1 / 8, 1 / 8, 1 / 8, 1 / 8]
     [1 / 8, 1 / 8, 1 / 8, 1 / 8, 1 / 8, 1 / 8, 1 / 8, 1 / 8] 3 7 = Inr (1 / 64, 0, 0)"
  by code_simp

lemma valid_postprocess_table:
  assumes "valid_postprocess os oe ent tbl input_size"
    and "i < nat (input_size - 1 - (int (length ent) + 2))"
  shows "list_get tbl (int i) = Inr (tbl ! i)"
  using assms by (auto simp: valid_postprocess_def list_get_def)

text \<open>
  Claim C1, as the code has it. On every valid input the window search returns a
  context-local pair \<open>(i, j)\<close>, and \<open>postprocess\<close> returns the character offsets
  \<open>context_tokens_start_end[i][0]\<close> and \<open>context_tokens_start_end[j][1]\<close>: the
  token-span table is the table of the context tokens, indexed by the context-local
  pair itself, and \<open>context_start_idx\<close> is not added.
\<close>

theorem postprocess_offsets:
  assumes "valid_postprocess os oe ent tbl input_size"
  shows "(case find_best_entity_window (get_score os) (get_score oe)
                 (int (length ent) + 2) (input_size - 1) of
            Inl e \<Rightarrow> False
          | Inr (sc, i, j) \<Rightarrow>
              postprocess os oe ent tbl input_size = Inr (sc, fst (tbl ! i), snd (tbl ! j)))"
proof -
  let ?cs = "int (length ent) + 2" and ?ce = "input_size - 1"
  have v: "valid_window os oe ?cs ?ce" using assms by (simp add: valid_postprocess_def)
  from window_softmax [OF v] obtain sc i j where
    r: "find_best_entity_window (get_score os) (get_score oe) ?cs ?ce = Inr (sc, i, j)"
    and i: "i < nat (?ce - ?cs)" and j: "j < nat (?ce - ?cs)" by blast
  have "list_get tbl (int i) = Inr (tbl ! i)" "list_get tbl (int j) = Inr (tbl ! j)"
    using valid_postprocess_table [OF assms] i j by simp_all
  then show ?thesis using r by (simp add: postprocess_def Let_def)
qed

theorem postprocess_offsets_witness:
  "valid_postprocess [0, 0, 0, 0, 0, 0, 0, 0] [0, 0, 0, 0, 0, 0, 0, 0] [7]
     [(0, 1), (2, 3), (4, 5), (6, 7)] 8
   \<and> postprocess [0, 0, 0, 0, 0, 0, 0, 0] [0, 0, 0, 0, 0, 0, 0, 0] [7]
       [(0, 1), (2, 3), (4, 5), (6, 7)] 8 = Inr (1 / 64, 0, 1)"
proof -
  have v: "valid_postprocess [0, 0, 0, 0, 0, 0, 0, 0] [0, 0, 0, 0, 0, 0, 0, 0] [7]
     [(0, 1), (2, 3), (4, 5), (6, 7)] 8"
    by (simp add: valid_postprocess_def valid_window_def)
  show ?thesis
    using v postprocess_offsets [OF v] by (simp add: get_score_zeros8 window_zeros8)
qed

text \<open>
  With one entity token the context starts at index 3. On uniform logits over a context
  of four tokens the best pair is \<open>(0, 0)\<close> and the offsets returned are those of
  table entry 0, not those of entry \<open>0 + 3\<close>.
\<close>

theorem postprocess_offsets_counterexample:
  "valid_postprocess [0, 0, 0, 0, 0, 0, 0, 0] [0, 0, 0, 0, 0, 0, 0, 0] [7]
     [(0, 1), (2, 3), (4, 5), (6, 7)] 8
   \<and> find_best_entity_window (get_score [0, 0, 0, 0, 0, 0, 0, 0])
       (get_score [0, 0, 0, 0, 0, 0, 0, 0]) (int (length [7::int]) + 2) (8 - 1) = Inr (1 / 64, 0, 0)
   \<and> postprocess [0, 0, 0, 0, 0, 0, 0, 0] [0, 0, 0, 0, 0, 0, 0, 0] [7]
       [(0, 1), (2, 3), (4, 5), (6, 7)] 8
      \<noteq> Inr (1 / 64, fst ([(0, 1), (2, 3), (4, 5), (6, 7)] ! (0 + (length [7::int] + 2))),
                     snd ([(0, 1), (2, 3), (4, 5), (6, 7)] ! (0 + (length [7::int] + 2))))"
  by (simp add: valid_postprocess_def valid_window_def postprocess_def list_get_def
      get_score_zeros8 window_zeros8)


text \<open>
  Claim C2, as the code has it. The code validates nothing and has no error kind of its
  own. With non-negative indices the window search raises numpy's \<open>ValueError\<close>
  exactly when the window is empty or reversed, or ends beyond one of the two vectors
  (so that a slice is shorter than \<open>context_len\<close>); vectors of different lengths are
  accepted when the window fits in both. In every other case it returns a pair of
  context-local indices below \<open>context_end_idx - context_start_idx\<close>.
\<close>

theorem window_errors:
  assumes "0 \<le> cs" and "0 \<le> ce"
  shows "(find_best_entity_window (get_score a) (get_score b) cs ce = Inl ValueError
          \<longleftrightarrow> \<not> (cs < ce \<and> ce \<le> int (length a) \<and> ce \<le> int (length b)))
     \<and> (cs < ce \<and> ce \<le> int (length a) \<and> ce \<le> int (length b) \<longrightarrow>
          (case find_best_entity_window (get_score a) (get_score b) cs ce of
             Inl e \<Rightarrow> False
           | Inr (sc, i, j) \<Rightarrow> i < nat (ce - cs) \<and> j < nat (ce - cs)))"
proof (intro conjI impI)
  show "find_best_entity_window (get_score a) (get_score b) cs ce = Inl ValueError
          \<longleftrightarrow> \<not> (cs < ce \<and> ce \<le> int (length a) \<and> ce \<le> int (length b))"
    using find_best_entity_window_raises [OF assms, of "get_score a" "get_score b"]
    by (simp add: length_get_score)
next
  assume h: "cs < ce \<and> ce \<le> int (length a) \<and> ce \<le> int (length b)"
  have "\<exists>k. k div nat (ce - cs) < nat (ce - cs) \<and> k mod nat (ce - cs) < nat (ce - cs)
     \<and> find_best_entity_window (get_score a) (get_score b) cs ce
        = Inr (masked_scores (py_slice (get_score a) cs ce) (py_slice (get_score b) cs ce)
                 ! (k div nat (ce - cs)) ! (k mod nat (ce - cs)),
               k div nat (ce - cs), k mod nat (ce - cs))"
    using find_best_entity_window_fits [of cs ce "get_score a" "get_score b"] assms(1) h
    by (auto simp: length_get_score)
  then show "case find_best_entity_window (get_score a) (get_score b) cs ce of
             Inl e \<Rightarrow> False
           | Inr (sc, i, j) \<Rightarrow> i < nat (ce - cs) \<and> j < nat (ce - cs)"
    by auto
qed

lemma get_score_zeros4: "get_score [0, 0, 0, 0] = [1 / 4, 1 / 4, 1 / 4, 1 / 4]"
  by (simp add: get_score_def)

lemma get_score_zeros5: "get_score [0, 0, 0, 0, 0] = [1 / 5, 1 / 5, 1 / 5, 1 / 5, 1 / 5]"
  by (simp add: get_score_def)

lemma window_zeros45:
  "find_best_entity_window [1 / 4, 1 / 4, 1 / 4, 1 / 4] [1 / 5, 1 / 5, 1 / 5, 1 / 5, 1 / 5] 2 4
     = Inr (1 / 20, 0, 0)"
  by code_simp

theorem window_errors_witness:
  "(0::int) \<le> 2 \<and> (0::int) \<le> 4
   \<and> find_best_entity_window (get_score [0, 0, 0, 0]) (get_score [0, 0, 0, 0, 0]) 2 4
       \<noteq> Inl ValueError
   \<and> find_best_entity_window (get_score [0, 0, 0, 0]) (get_score [0, 0, 0, 0, 0]) 2 5
       = Inl ValueError
   \<and> find_best_entity_window (get_score [0, 0, 0, 0]) (get_score [0, 0, 0, 0, 0]) 2 2
       = Inl ValueError"
  using window_errors [of 2 4 "[0, 0, 0, 0]" "[0, 0, 0, 0, 0]"]
    window_errors [of 2 5 "[0, 0, 0, 0]" "[0, 0, 0, 0, 0]"]
    window_errors [of 2 2 "[0, 0, 0, 0]" "[0, 0, 0, 0, 0]"]
  by simp

text \<open>
  Logit vectors of lengths 4 and 5: \<open>postprocess\<close> returns normally.
\<close>

theorem window_errors_counterexample:
  "length [0, 0, 0, 0 :: real] \<noteq> length [0, 0, 0, 0, 0 :: real]
   \<and> postprocess [0, 0, 0, 0] [0, 0, 0, 0, 0] [] [(0, 1), (2, 3)] 5 = Inr (1 / 20, 0, 1)"
  by (simp add: postprocess_def list_get_def get_score_zeros4 get_score_zeros5 window_zeros45)





lemma get_score_0_ln3: "get_score [0, ln 3] = [1 / 4, 3 / 4]"
  by (simp add: get_score_def)

lemma get_score_ln3_0: "get_score [ln 3, 0] = [3 / 4, 1 / 4]"
  by (simp add: get_score_def)

lemma window_crossed:
  "find_best_entity_window [1 / 4, 3 / 4] [3 / 4, 1 / 4] 0 2 = Inr (3 / 16, 0, 0)"
  by code_simp

text \<open>
  Claim C4. On every valid input the selected context-local pair satisfies
  \<open>i \<le> j \<le> i + 16\<close> (the length cap is the constant 16 in the code).
\<close>

theorem span_within_band:
  assumes "valid_window a b cs ce"
  shows "(case find_best_entity_window (get_score a) (get_score b) cs ce of
            Inl e \<Rightarrow> False
          | Inr (sc, i, j) \<Rightarrow> i \<le> j \<and> j \<le> i + 16)"
proof -
  from window_softmax [OF assms] obtain sc i j where
    "find_best_entity_window (get_score a) (get_score b) cs ce = Inr (sc, i, j)"
    "i \<le> j" "j \<le> i + 16" by blast
  then show ?thesis by simp
qed

lemma get_score_head18:
  "get_score [ln 3, 0, 0, 0, 0, 0, 0, 0, 0, 0, 0, 0, 0, 0, 0, 0, 0, 0] =
     [3 / 20, 1 / 20, 1 / 20, 1 / 20, 1 / 20, 1 / 20, 1 / 20, 1 / 20, 1 / 20,
      1 / 20, 1 / 20, 1 / 20, 1 / 20, 1 / 20, 1 / 20, 1 / 20, 1 / 20, 1 / 20]"
  by (simp add: get_score_def)

lemma get_score_last18:
  "get_score [0, 0, 0, 0, 0, 0, 0, 0, 0, 0, 0, 0, 0, 0, 0, 0, 0, ln 3] =
     [1 / 20, 1 / 20, 1 / 20, 1 / 20, 1 / 20, 1 / 20, 1 / 20, 1 / 20, 1 / 20,
      1 / 20, 1 / 20, 1 / 20, 1 / 20, 1 / 20, 1 / 20, 1 / 20, 1 / 20, 3 / 20]"
  by (simp add: get_score_def)

lemma window_long:
  "find_best_entity_window
     [3 / 20, 1 / 20, 1 / 20, 1 / 20, 1 / 20, 1 / 20, 1 / 20, 1 / 20, 1 / 20,
      1 / 20, 1 / 20, 1 / 20, 1 / 20, 1 / 20, 1 / 20, 1 / 20, 1 / 20, 1 / 20]
     [1 / 20, 1 / 20, 1 / 20, 1 / 20, 1 / 20, 1 / 20, 1 / 20, 1 / 20, 1 / 20,
      1 / 20, 1 / 20, 1 / 20, 1 / 20, 1 / 20, 1 / 20, 1 / 20, 1 / 20, 3 / 20] 0 18
   = Inr (3 / 400, 0, 0)"
  by code_simp

theorem span_within_band_witness:
  "valid_window [0, ln 3] [ln 3, 0] 0 2
   \<and> get_score [0, ln 3] ! 1 * get_score [ln 3, 0] ! 0 = 9 / 16
   \<and> find_best_entity_window (get_score [0, ln 3]) (get_score [ln 3, 0]) 0 2 = Inr (3 / 16, 0, 0)
   \<and> valid_window [ln 3, 0, 0, 0, 0, 0, 0, 0, 0, 0, 0, 0, 0, 0, 0, 0, 0, 0]
         [0, 0, 0, 0, 0, 0, 0, 0, 0, 0, 0, 0, 0, 0, 0, 0, 0, ln 3] 0 18
   \<and> get_score [ln 3, 0, 0, 0, 0, 0, 0, 0, 0, 0, 0, 0, 0, 0, 0, 0, 0, 0] ! 0
       * get_score [0, 0, 0, 0, 0, 0, 0, 0, 0, 0, 0, 0, 0, 0, 0, 0, 0, ln 3] ! 17 = 9 / 400
   \<and> find_best_entity_window
         (get_score [ln 3, 0, 0, 0, 0, 0, 0, 0, 0, 0, 0, 0, 0, 0, 0, 0, 0, 0])
         (get_score [0, 0, 0, 0, 0, 0, 0, 0, 0, 0, 0, 0, 0, 0, 0, 0, 0, ln 3]) 0 18
       = Inr (3 / 400, 0, 0)"
proof -
  have v: "valid_window [0, ln 3] [ln 3, 0] 0 2" by (simp add: valid_window_def)
  have v18: "valid_window [ln 3, 0, 0, 0, 0, 0, 0, 0, 0, 0, 0, 0, 0, 0, 0, 0, 0, 0]
         [0, 0, 0, 0, 0, 0, 0, 0, 0, 0, 0, 0, 0, 0, 0, 0, 0, ln 3] 0 18"
    by (simp add: valid_window_def)
  show ?thesis
    using v v18 span_within_band [OF v] span_within_band [OF v18]
    by (simp add: get_score_0_ln3 get_score_ln3_0 window_crossed
        get_score_head18 get_score_last18 window_long)
qed

text \<open>
  Claim C5. On every valid input, with \<open>M\<close> the masked \<open>n \<times> n\<close> score matrix, the
  selected pair \<open>(i, j)\<close> is at the flattened (row-major) index \<open>i * n + j\<close> of a
  maximal entry, the returned score is that entry, and every entry at a lower flattened
  index is strictly smaller: ties go to the lowest flattened index.
\<close>

theorem span_is_first_argmax:
  assumes "valid_window a b cs ce"
  shows "(let M = masked_scores (py_slice (get_score a) cs ce) (py_slice (get_score b) cs ce);
              n = nat (ce - cs)
          in length (concat M) = n * n
             \<and> (case find_best_entity_window (get_score a) (get_score b) cs ce of
                   Inl e \<Rightarrow> False
                 | Inr (sc, i, j) \<Rightarrow>
                     i < n \<and> j < n \<and> sc = concat M ! (i * n + j)
                     \<and> (\<forall>k < n * n. concat M ! k \<le> concat M ! (i * n + j))
                     \<and> (\<forall>k < i * n + j. concat M ! k < concat M ! (i * n + j))))"
proof -
  let ?ps = "get_score a" and ?pe = "get_score b"
  let ?M = "masked_scores (py_slice ?ps cs ce) (py_slice ?pe cs ce)"
  let ?n = "nat (ce - cs)"
  have c0: "0 \<le> cs" and c1: "cs < ce" and c2: "ce \<le> int (length ?ps)"
    and c3: "ce \<le> int (length ?pe)"
    using assms by (simp_all add: valid_window_def length_get_score)
  have le: "cs \<le> ce" using c1 by simp
  have lcol: "length (py_slice ?ps cs ce) = ?n" using c0 le c2 by (rule py_slice_inside(2))
  have lrow: "length (py_slice ?pe cs ce) = ?n" using c0 le c3 by (rule py_slice_inside(2))
  from find_best_entity_window_fits [OF c0 c1 c2 c3] obtain k where
    k: "argmax (concat ?M) = Inr k" "k < ?n * ?n" "k div ?n < ?n" "k mod ?n < ?n"
      "find_best_entity_window ?ps ?pe cs ce = Inr (?M ! (k div ?n) ! (k mod ?n), k div ?n, k mod ?n)"
      "concat ?M ! k = ?M ! (k div ?n) ! (k mod ?n)"
      "\<forall>k' < k. concat ?M ! k' < concat ?M ! k"
      "\<forall>k' < ?n * ?n. concat ?M ! k' \<le> concat ?M ! k"
      "length (concat ?M) = ?n * ?n"
    by blast
  have idx: "k div ?n * ?n + k mod ?n = k" by simp
  show ?thesis
    unfolding Let_def using k(3) k(4) k(5) k(6) k(7) k(8) k(9) by (simp add: idx)
qed

lemma get_score_zeros2: "get_score [0, 0] = [1 / 2, 1 / 2]"
  by (simp add: get_score_def)

lemma window_tie:
  "find_best_entity_window [1 / 2, 1 / 2] [1 / 2, 1 / 2] 0 2 = Inr (1 / 4, 0, 0)"
  by code_simp

lemma masked_tie:
  "concat (masked_scores (py_slice [1 / 2, 1 / 2] 0 2) (py_slice [1 / 2, 1 / 2] 0 2))
     = [1 / 4, 1 / 4, 0, 1 / 4]"
  by code_simp

theorem span_is_first_argmax_witness:
  "valid_window [0, 0] [0, 0] 0 2
   \<and> concat (masked_scores (py_slice (get_score [0, 0]) 0 2) (py_slice (get_score [0, 0]) 0 2))
       = [1 / 4, 1 / 4, 0, 1 / 4]
   \<and> find_best_entity_window (get_score [0, 0]) (get_score [0, 0]) 0 2 = Inr (1 / 4, 0, 0)"
proof -
  have v: "valid_window [0, 0] [0, 0] 0 2" by (simp add: valid_window_def)
  show ?thesis
    using v span_is_first_argmax [OF v]
    by (simp add: get_score_zeros2 window_tie masked_tie)
qed


section \<open>Properties of the driver\<close>

lemma get_best_entity_calls:
  "fst (get_best_entity env entity context calls) = calls @ [query_input env entity context]"
  by (auto simp: get_best_entity_def query_input_def Let_def split: prod.splits sum.splits)

lemma get_best_entity_result:
  "snd (get_best_entity env entity context calls) = snd (get_best_entity env entity context [])"
  by (auto simp: get_best_entity_def Let_def split: prod.splits sum.splits)

lemma get_best_entity_split:
  "get_best_entity env entity context calls =
     (calls @ [query_input env entity context], snd (get_best_entity env entity context []))"
  using get_best_entity_calls [of env entity _ calls]
    get_best_entity_result [of env entity _ calls]
  by (metis prod.collapse)

lemma analyze_fields_all_found:
  assumes "\<forall>f \<in> set fs. snd (get_best_entity env (f @ ''?'') context []) = Inr (ent f, sc f)"
  shows "analyze_fields env context fs acc calls =
     (calls @ map (\<lambda>f. query_input env (f @ ''?'') context) fs,
      Inr (acc @ map (\<lambda>f. \<lparr>Entity = ent f, Type = f, Score = format_2f env (sc f)\<rparr>)
                         (filter (\<lambda>f. confidence_threshold \<le> sc f) fs)))"
  using assms
proof (induction fs arbitrary: acc calls)
  case Nil
  then show ?case by simp
next
  case (Cons f fs)
  have h: "get_best_entity env (f @ ''?'') context calls =
      (calls @ [query_input env (f @ ''?'') context], Inr (ent f, sc f))"
    using Cons.prems by (simp add: get_best_entity_split [of env _ _ calls])
  have ih: "\<And>acc calls. analyze_fields env context fs acc calls =
     (calls @ map (\<lambda>f. query_input env (f @ ''?'') context) fs,
      Inr (acc @ map (\<lambda>f. \<lparr>Entity = ent f, Type = f, Score = format_2f env (sc f)\<rparr>)
                         (filter (\<lambda>f. confidence_threshold \<le> sc f) fs)))"
    using Cons.prems by (intro Cons.IH) simp
  show ?case by (simp add: h ih)
qed

lemma analyze_fields_calls_grow:
  "length calls + (if fs = [] then 0 else 1) \<le> length (fst (analyze_fields env context fs acc calls))"
proof (induction fs arbitrary: acc calls)
  case Nil
  then show ?case by simp
next
  case (Cons f fs)
  obtain r where r: "get_best_entity env (f @ ''?'') context calls =
      (calls @ [query_input env (f @ ''?'') context], r)"
    using get_best_entity_split by blast
  show ?case
  proof (cases r)
    case (Inl e)
    then show ?thesis using r by simp
  next
    case (Inr p)
    obtain entity score where p: "p = (entity, score)" by (cases p)
    have "length (calls @ [query_input env (f @ ''?'') context]) + (if fs = [] then 0 else 1)
        \<le> length (fst (analyze_fields env context fs
             (if score \<ge> confidence_threshold
              then acc @ [\<lparr>Entity = entity, Type = f, Score = format_2f env score\<rparr>]
              else acc) (calls @ [query_input env (f @ ''?'') context])))"
      by (rule Cons.IH)
    then show ?thesis using r Inr p by (simp split: if_splits)
  qed
qed

text \<open>
  Claim C8. The driver's loop queries the model once per field, in the order of the field
  list, with the entity text \<open>field + "?"\<close>; when every query returns, the records
  produced are those of the fields whose score is at least the threshold 0.4, in the
  order of the field list, each with the entity found, the field as type and the
  formatted score. \<open>run_analyze_entities\<close> does this for \<open>template\<close> on a context of
  1 to 380 characters and prints the records.
\<close>

theorem run_analyze_entities_filter:
  "((\<forall>f \<in> set fs. snd (get_best_entity env (f @ ''?'') context []) = Inr (ent f, sc f)) \<longrightarrow>
      analyze_fields env context fs [] [] =
        (map (\<lambda>f. query_input env (f @ ''?'') context) fs,
         Inr (map (\<lambda>f. \<lparr>Entity = ent f, Type = f, Score = format_2f env (sc f)\<rparr>)
                  (filter (\<lambda>f. 0.4 \<le> sc f) fs))))
   \<and> ((\<forall>f \<in> set template. snd (get_best_entity env (f @ ''?'') context []) = Inr (ent f, sc f))
        \<and> 0 < length context \<and> length context \<le> 380 \<longrightarrow>
      run_analyze_entities env context =
        (map (\<lambda>f. query_input env (f @ ''?'') context) template,
         [Context_line context,
          Json_output (map (\<lambda>f. \<lparr>Entity = ent f, Type = f, Score = format_2f env (sc f)\<rparr>)
                           (filter (\<lambda>f. 0.4 \<le> sc f) template))],
         None))"
proof (intro conjI impI)
  assume "\<forall>f \<in> set fs. snd (get_best_entity env (f @ ''?'') context []) = Inr (ent f, sc f)"
  then show "analyze_fields env context fs [] [] =
        (map (\<lambda>f. query_input env (f @ ''?'') context) fs,
         Inr (map (\<lambda>f. \<lparr>Entity = ent f, Type = f, Score = format_2f env (sc f)\<rparr>)
                  (filter (\<lambda>f. 0.4 \<le> sc f) fs)))"
    using analyze_fields_all_found [of fs env _ ent sc "[]" "[]"]
    by (simp add: confidence_threshold_def)
next
  assume h: "(\<forall>f \<in> set template. snd (get_best_entity env (f @ ''?'') context []) = Inr (ent f, sc f))
        \<and> 0 < length context \<and> length context \<le> 380"
  then have "analyze_fields env context template [] [] =
        (map (\<lambda>f. query_input env (f @ ''?'') context) template,
         Inr (map (\<lambda>f. \<lparr>Entity = ent f, Type = f, Score = format_2f env (sc f)\<rparr>)
                  (filter (\<lambda>f. 0.4 \<le> sc f) template)))"
    using analyze_fields_all_found [of template env _ ent sc "[]" "[]"]
    by (simp add: confidence_threshold_def)
  then show "run_analyze_entities env context =
        (map (\<lambda>f. query_input env (f @ ''?'') context) template,
         [Context_line context,
          Json_output (map (\<lambda>f. \<lparr>Entity = ent f, Type = f, Score = format_2f env (sc f)\<rparr>)
                           (filter (\<lambda>f. 0.4 \<le> sc f) template))],
         None)"
    using h by (simp add: run_analyze_entities_def)
qed

text \<open>
  Claim C9. On an empty context, and on a context of more than 380 characters,
  \<open>run_analyze_entities\<close> prints the context and an error message, calls the model
  not at all and prints no extraction; on a context of 1 to 380 characters it runs the
  loop over \<open>template\<close>, which calls the model.
\<close>

theorem run_analyze_entities_length_guard:
  "(length context = 0 \<longrightarrow>
      run_analyze_entities env context = ([], [Context_line context, Error_empty_context], None))
   \<and> (380 < length context \<longrightarrow>
      run_analyze_entities env context = ([], [Context_line context, Error_context_too_long], None))
   \<and> (0 < length context \<and> length context \<le> 380 \<longrightarrow>
      fst (run_analyze_entities env context) = fst (analyze_fields env context template [] [])
      \<and> fst (run_analyze_entities env context) \<noteq> [])"
proof (intro conjI impI)
  assume "length context = 0"
  then show "run_analyze_entities env context = ([], [Context_line context, Error_empty_context], None)"
    by (simp add: run_analyze_entities_def)
next
  assume "380 < length context"
  then show "run_analyze_entities env context = ([], [Context_line context, Error_context_too_long], None)"
    by (auto simp: run_analyze_entities_def)
next
  assume h: "0 < length context \<and> length context \<le> 380"
  then show eq: "fst (run_analyze_entities env context) = fst (analyze_fields env context template [] [])"
    by (auto simp: run_analyze_entities_def split: prod.splits sum.splits)
  have "length ([] :: network_input list) + (if template = [] then 0 else 1)
      \<le> length (fst (analyze_fields env context template [] []))"
    by (rule analyze_fields_calls_grow)
  then have "fst (analyze_fields env context template [] []) \<noteq> []"
    by (auto simp: template_def)
  then show "fst (run_analyze_entities env context) \<noteq> []" using eq by simp
qed


lemma get_score_peak: "get_score [0, 0, 0, ln 16, 0] = [1 / 20, 1 / 20, 1 / 20, 4 / 5, 1 / 20]"
  by (simp add: get_score_def)

lemma window_peak:
  "find_best_entity_window [1 / 20, 1 / 20, 1 / 20, 4 / 5, 1 / 20]
     [1 / 20, 1 / 20, 1 / 20, 4 / 5, 1 / 20] 3 4 = Inr (16 / 25, 0, 0)"
  by code_simp

lemma window_flat:
  "find_best_entity_window [1 / 5, 1 / 5, 1 / 5, 1 / 5, 1 / 5]
     [1 / 5, 1 / 5, 1 / 5, 1 / 5, 1 / 5] 3 4 = Inr (1 / 25, 0, 0)"
  by code_simp

lemma sample_env_best:
  "snd (get_best_entity sample_env (f @ ''?'') ''ab'' []) =
     Inr (''ab'', if f = ''company'' then 16 / 25 else 1 / 25)"
  by (simp add: get_best_entity_def sample_env_def prepare_input_def postprocess_def
      get_score_peak get_score_zeros5 window_peak window_flat list_get_def
      py_slice_def slice_index_def)

theorem run_analyze_entities_filter_witness:
  "run_analyze_entities sample_env ''ab'' =
     (map (\<lambda>f. query_input sample_env (f @ ''?'') ''ab'') template,
      [Context_line ''ab'',
       Json_output [\<lparr>Entity = ''ab'', Type = ''company'', Score = ''0.64''\<rparr>]],
      None)"
proof -
  have h: "\<forall>f \<in> set template. snd (get_best_entity sample_env (f @ ''?'') ''ab'' []) =
      Inr ((\<lambda>f. ''ab'') f, (\<lambda>f. if f = ''company'' then 16 / 25 else 1 / 25) f)"
    by (simp add: sample_env_best)
  have f: "format_2f sample_env (16 / 25) = ''0.64''" by (simp add: sample_env_def)
  show ?thesis
    using h run_analyze_entities_filter [of "[]" sample_env "''ab''" "\<lambda>f. ''ab''"
        "\<lambda>f. if f = ''company'' then 16 / 25 else 1 / 25"]
    by (simp add: template_def f)
qed

theorem run_analyze_entities_length_guard_witness:
  "run_analyze_entities sample_env [] = ([], [Context_line [], Error_empty_context], None)
   \<and> run_analyze_entities sample_env (replicate 381 (CHR ''a''))
       = ([], [Context_line (replicate 381 (CHR ''a'')), Error_context_too_long], None)
   \<and> fst (run_analyze_entities sample_env ''ab'') \<noteq> []"
proof -
  have a: "run_analyze_entities sample_env [] = ([], [Context_line [], Error_empty_context], None)"
    using run_analyze_entities_length_guard [of "[]" sample_env] by simp
  have b: "run_analyze_entities sample_env (replicate 381 (CHR ''a''))
       = ([], [Context_line (replicate 381 (CHR ''a'')), Error_context_too_long], None)"
    using run_analyze_entities_length_guard [of "replicate 381 (CHR ''a'')" sample_env] by simp
  have "0 < length ''ab'' \<and> length ''ab'' \<le> 380" by simp
  then have c: "fst (run_analyze_entities sample_env ''ab'') \<noteq> []"
    using run_analyze_entities_length_guard [of "''ab''" sample_env] by blast
  show ?thesis using a b c by blast
qed

end
